theory Spec2Isabelle
  imports
    Main
    "HOL-Library.List_Lexorder"
    "HOL-Library.Product_Lexorder"
    "HOL-Library.Sublist"
    "HOL-Library.Multiset"
begin

section \<open>Python strings\<close>

text \<open>
  A Python \<open>str\<close> is a sequence of Unicode code points, and the suffix list holds labels
  far beyond ASCII, so a string is modelled as the list of its code points. Comparison of
  two strings is the lexicographic order of the code points, which is the order of
  \<open>nat list\<close> here. \<open>str\<close> turns a literal into its code points.
\<close>

type_synonym pystr = "nat list"

definition str :: "string \<Rightarrow> pystr" where
  "str s = map of_char s"

text \<open>\<open>sub in s\<close>: the substring test.\<close>

fun py_in :: "pystr \<Rightarrow> pystr \<Rightarrow> bool" where
  "py_in sub [] = (sub = [])"
| "py_in sub (c # cs) = (prefix sub (c # cs) \<or> py_in sub cs)"

text \<open>\<open>s.split(sep)\<close> for a separator of one character.\<close>

fun py_split :: "nat \<Rightarrow> pystr \<Rightarrow> pystr list" where
  "py_split sep [] = [[]]"
| "py_split sep (c # cs) =
     (if c = sep then [] # py_split sep cs
      else (case py_split sep cs of
              [] \<Rightarrow> [[c]]
            | w # ws \<Rightarrow> (c # w) # ws))"

text \<open>The characters that \<open>str.strip()\<close> removes: those for which \<open>isspace\<close> holds.\<close>

definition is_space :: "nat \<Rightarrow> bool" where
  "is_space c \<longleftrightarrow>
     (9 \<le> c \<and> c \<le> 13) \<or> (28 \<le> c \<and> c \<le> 32) \<or> c = 133 \<or> c = 160 \<or> c = 5760 \<or>
     (8192 \<le> c \<and> c \<le> 8202) \<or> c = 8232 \<or> c = 8233 \<or> c = 8239 \<or> c = 8287 \<or> c = 12288"

definition strip :: "pystr \<Rightarrow> pystr" where
  "strip s = rev (dropWhile is_space (rev (dropWhile is_space s)))"

text \<open>\<open>s.lstrip(chars)\<close> removes every leading character that occurs in \<open>chars\<close>.\<close>

definition lstrip :: "pystr \<Rightarrow> pystr \<Rightarrow> pystr" where
  "lstrip chars s = dropWhile (\<lambda>c. c \<in> set chars) s"

definition startswith :: "pystr \<Rightarrow> pystr \<Rightarrow> bool" where
  "startswith s p = prefix p s"

section \<open>Section extractor\<close>

datatype error = ValueError string | FetchError

definition start_marker :: pystr where
  "start_marker = str ''// ===BEGIN ICANN DOMAINS===''"

definition end_marker :: pystr where
  "end_marker = str ''// ===END ICANN DOMAINS===''"

text \<open>
  The scanning loop of \<open>extract_icann_domains\<close>: \<open>idx\<close> is the index of the line at the
  head of the list, \<open>start_idx\<close> the value assigned so far. The result is the pair
  \<open>(start_idx, end_idx)\<close> at the end of the loop; \<open>break\<close> ends it at the first line that
  reaches the \<open>elif\<close> branch.
\<close>

fun find_markers :: "nat \<Rightarrow> nat option \<Rightarrow> pystr list \<Rightarrow> nat option \<times> nat option" where
  "find_markers idx start_idx [] = (start_idx, None)"
| "find_markers idx start_idx (line # rest) =
     (if py_in start_marker line then find_markers (idx + 1) (Some (idx + 1)) rest
      else if py_in end_marker line then (start_idx, Some idx)
      else find_markers (idx + 1) start_idx rest)"

definition extract_icann_domains :: "pystr \<Rightarrow> error + pystr list" where
  "extract_icann_domains psl_content =
     (let lines = py_split 10 psl_content in
      case find_markers 0 None lines of
        (Some start_idx, Some end_idx) \<Rightarrow> Inr (drop start_idx (take end_idx lines))
      | _ \<Rightarrow> Inl (ValueError ''Could not find ICANN domains section markers''))"

section \<open>Domain parser\<close>

text \<open>
  A \<open>dict\<close> keeps its keys in insertion order, so an index is an association list with
  distinct keys, in that order. \<open>dd_update d f k m\<close> is \<open>m[k] = f(m[k])\<close> on a
  \<open>defaultdict\<close> whose default value is \<open>d\<close>: a missing key is appended with \<open>f d\<close>.
  \<open>dd_get d m k\<close> reads \<open>m[k]\<close>.
\<close>

fun dd_update :: "'v \<Rightarrow> ('v \<Rightarrow> 'v) \<Rightarrow> 'k \<Rightarrow> ('k \<times> 'v) list \<Rightarrow> ('k \<times> 'v) list" where
  "dd_update d f k [] = [(k, f d)]"
| "dd_update d f k ((k', v) # m) =
     (if k' = k then (k', f v) # m else (k', v) # dd_update d f k m)"

definition dd_get :: "'v \<Rightarrow> ('k \<times> 'v) list \<Rightarrow> 'k \<Rightarrow> 'v" where
  "dd_get d m k = (case map_of m k of None \<Rightarrow> d | Some v \<Rightarrow> v)"

record indexes =
  component_tlds :: "(pystr \<times> pystr set) list"
  component_total_count :: "(pystr \<times> int) list"
  tld_components :: "(pystr \<times> pystr list) list"

definition empty_indexes :: indexes where
  "empty_indexes = \<lparr>component_tlds = [], component_total_count = [], tld_components = []\<rparr>"

definition default_exclude_tlds :: "pystr set" where
  "default_exclude_tlds = {str ''it'', str ''jp'', str ''no''}"

text \<open>
  The head of the loop body of \<open>parse_domains\<close>, up to the filtered \<open>parts\<close>:
  \<open>None\<close> is the \<open>continue\<close> for an empty line or a comment.
\<close>

definition line_parts :: "pystr \<Rightarrow> pystr list option" where
  "line_parts raw =
     (let line = strip raw in
      if line = [] \<or> startswith line (str ''//'') then None
      else
        let line = lstrip (str ''!'') (lstrip (str ''*'') line);
            parts = py_split 46 line
        in Some (filter (\<lambda>p. p \<noteq> []) parts))"

text \<open>The body of the inner loop, for one \<open>component\<close> of \<open>parts[:-1]\<close>.\<close>

definition add_component :: "pystr \<Rightarrow> indexes \<Rightarrow> pystr \<Rightarrow> indexes" where
  "add_component tld ix component =
     (if component = [] then ix
      else
        \<lparr>component_tlds = dd_update {} (insert tld) component (component_tlds ix),
         component_total_count = dd_update 0 (\<lambda>n. n + 1) component (component_total_count ix),
         tld_components = dd_update [] (\<lambda>cs. cs @ [component]) tld (tld_components ix)\<rparr>)"

text \<open>The body of the outer loop, for one line.\<close>

definition parse_line :: "pystr set \<Rightarrow> indexes \<Rightarrow> pystr \<Rightarrow> indexes" where
  "parse_line exclude_tlds ix raw =
     (case line_parts raw of
        None \<Rightarrow> ix
      | Some parts \<Rightarrow>
          if length parts < 2 then ix
          else
            let tld = last parts in
            if tld \<in> exclude_tlds then ix
            else foldl (add_component tld) ix (butlast parts))"

definition parse_domains :: "pystr list \<Rightarrow> pystr set \<Rightarrow> indexes" where
  "parse_domains lines exclude_tlds = foldl (parse_line exclude_tlds) empty_indexes lines"

section \<open>Frequency calculator\<close>

definition calculate_frequencies ::
  "(pystr \<times> pystr set) list \<Rightarrow> (pystr \<times> int) list \<Rightarrow> (pystr \<times> int) list \<times> (pystr \<times> int) list" where
  "calculate_frequencies ctlds ctotal =
     (let total_freq = ctotal;
          unique_tld_freq = map (\<lambda>(component, tlds). (component, int (card tlds))) ctlds
      in (total_freq, unique_tld_freq))"

section \<open>Report writer\<close>

text \<open>
  What a writer hands to its sink: the rows of a table under their header, or the ordered
  entries of a JSON object. \<open>sorted\<close> is a stable sort on the key, as \<open>sort_key\<close> is; a
  tuple key is compared lexicographically.
\<close>

datatype artifact =
  Csv "string list" "(pystr \<times> int) list"
| JsonStringToTlds "(pystr \<times> int \<times> pystr list) list"
| JsonTldToStrings "(pystr \<times> pystr list) list"

type_synonym files = "string \<rightharpoonup> artifact"

definition rank_key :: "pystr \<times> int \<Rightarrow> int \<times> pystr" where
  "rank_key x = (- snd x, fst x)"

definition csv_rows :: "(pystr \<times> int) list \<Rightarrow> (pystr \<times> int) list" where
  "csv_rows data = sort_key rank_key data"

definition write_csv :: "string \<Rightarrow> (pystr \<times> int) list \<Rightarrow> files \<Rightarrow> files" where
  "write_csv filename data fs =
     (let sorted_data = csv_rows data
      in fs(filename \<mapsto> Csv [''string'', ''frequency''] sorted_data))"

definition write_json_string_to_tlds ::
  "string \<Rightarrow> (pystr \<times> pystr set) list \<Rightarrow> (pystr \<times> int) list \<Rightarrow> files \<Rightarrow> files" where
  "write_json_string_to_tlds filename ctlds ctotal fs =
     (let sorted_components =
            sort_key (\<lambda>x. (- dd_get 0 ctotal x, x)) (map fst ctlds);
          data = map (\<lambda>component.
                   (component, dd_get 0 ctotal component,
                    sorted_list_of_set (dd_get {} ctlds component))) sorted_components
      in fs(filename \<mapsto> JsonStringToTlds data))"

text \<open>
  \<open>list(set(xs))\<close> lists the distinct elements of \<open>xs\<close> in an order of the interpreter's
  choosing; the sort that follows has a key that no two of them share, so its result
  does not depend on that order, and \<open>remdups\<close> stands for it.
\<close>

definition write_json_tld_to_strings ::
  "string \<Rightarrow> (pystr \<times> pystr list) list \<Rightarrow> (pystr \<times> int) list \<Rightarrow> files \<Rightarrow> files" where
  "write_json_tld_to_strings filename tcomps ctotal fs =
     (let data = map (\<lambda>tld.
                   let unique_components = remdups (dd_get [] tcomps tld);
                       sorted_components =
                         sort_key (\<lambda>x. (- dd_get 0 ctotal x, x)) unique_components
                   in (tld, sorted_components)) (sort (map fst tcomps))
      in fs(filename \<mapsto> JsonTldToStrings data))"

section \<open>The run\<close>

text \<open>
  \<open>main\<close> on the outcome of the fetch and the files present before the run. An exception
  of the fetch or of the extractor ends the run where it is raised. The console messages
  are left out.
\<close>

definition main :: "error + pystr \<Rightarrow> files \<Rightarrow> (error + unit) \<times> files" where
  "main fetched fs =
     (case fetched of
        Inl e \<Rightarrow> (Inl e, fs)
      | Inr psl_content \<Rightarrow>
          (case extract_icann_domains psl_content of
             Inl e \<Rightarrow> (Inl e, fs)
           | Inr icann_lines \<Rightarrow>
               let ix = parse_domains icann_lines default_exclude_tlds;
                   (total_freq, unique_tld_freq) =
                      calculate_frequencies (component_tlds ix) (component_total_count ix);
                   fs = write_csv ''sld_popularity_total.csv'' total_freq fs;
                   fs = write_csv ''sld_popularity_unique_tld.csv'' unique_tld_freq fs;
                   fs = write_json_string_to_tlds ''sld_string_to_tlds.json''
                          (component_tlds ix) (component_total_count ix) fs;
                   fs = write_json_tld_to_strings ''sld_tld_to_strings.json''
                          (tld_components ix) (component_total_count ix) fs
               in (Inr (), fs)))"

section \<open>Notions used to state the properties\<close>

text \<open>
  What one line contributes: its TLD and its components, when the line passes every
  \<open>continue\<close> of the loop body; the occurrences \<open>(component, TLD)\<close> of a line and of a
  sequence of lines, in the order in which the inner loop visits them.
\<close>

definition suffix_pattern :: "pystr set \<Rightarrow> pystr \<Rightarrow> (pystr \<times> pystr list) option" where
  "suffix_pattern exclude_tlds raw =
     (case line_parts raw of
        None \<Rightarrow> None
      | Some parts \<Rightarrow>
          if length parts < 2 \<or> last parts \<in> exclude_tlds then None
          else Some (last parts, butlast parts))"

definition line_occurrences :: "pystr set \<Rightarrow> pystr \<Rightarrow> (pystr \<times> pystr) list" where
  "line_occurrences exclude_tlds raw =
     (case suffix_pattern exclude_tlds raw of
        None \<Rightarrow> []
      | Some (tld, comps) \<Rightarrow> map (\<lambda>c. (c, tld)) comps)"

definition occurrences :: "pystr set \<Rightarrow> pystr list \<Rightarrow> (pystr \<times> pystr) list" where
  "occurrences exclude_tlds lines = concat (map (line_occurrences exclude_tlds) lines)"

definition add_occurrence :: "indexes \<Rightarrow> pystr \<times> pystr \<Rightarrow> indexes" where
  "add_occurrence ix oc = add_component (snd oc) ix (fst oc)"

text \<open>A label: a non-empty string without the separator \<open>.\<close> (code point 46).\<close>

definition label :: "pystr \<Rightarrow> bool" where
  "label s \<longleftrightarrow> s \<noteq> [] \<and> 46 \<notin> set s"

text \<open>The indexes after a sequence of occurrences, from the empty indexes.\<close>

definition build :: "(pystr \<times> pystr) list \<Rightarrow> indexes" where
  "build ocs = foldl add_occurrence empty_indexes ocs"

text \<open>A line whose last label is in the exclusion set.\<close>

definition tld_excluded :: "pystr set \<Rightarrow> pystr \<Rightarrow> bool" where
  "tld_excluded exclude_tlds raw =
     (case line_parts raw of
        None \<Rightarrow> False
      | Some parts \<Rightarrow> parts \<noteq> [] \<and> last parts \<in> exclude_tlds)"

text \<open>The components that a line contributes under a given TLD, in the order of the line.\<close>

definition components_under :: "pystr set \<Rightarrow> pystr \<Rightarrow> pystr \<Rightarrow> pystr list" where
  "components_under exclude_tlds tld raw =
     (case suffix_pattern exclude_tlds raw of
        None \<Rightarrow> []
      | Some (t, comps) \<Rightarrow> if t = tld then comps else [])"

text \<open>A line that ends the scan: it reaches the \<open>elif\<close> branch and its test holds.\<close>

definition end_line :: "pystr \<Rightarrow> bool" where
  "end_line l \<longleftrightarrow> \<not> py_in start_marker l \<and> py_in end_marker l"

text \<open>
  The extractor as the specification words it, for comparison with the code: the first
  line with the start marker, the first line after it with the end marker, the lines
  strictly between the two.
\<close>

definition extract_first_markers :: "pystr \<Rightarrow> error + pystr list" where
  "extract_first_markers text =
     (let lines = py_split 10 text;
          from_start = dropWhile (\<lambda>l. \<not> py_in start_marker l) lines
      in case from_start of
           [] \<Rightarrow> Inl (ValueError ''Could not find ICANN domains section markers'')
         | s # after \<Rightarrow>
             (let between = takeWhile (\<lambda>l. \<not> py_in end_marker l) after
              in if between = after
                 then Inl (ValueError ''Could not find ICANN domains section markers'')
                 else Inr between))"

text \<open>Removing at most one leading occurrence of a character.\<close>

definition strip_one :: "nat \<Rightarrow> pystr \<Rightarrow> pystr" where
  "strip_one c s = (case s of [] \<Rightarrow> [] | x # xs \<Rightarrow> if x = c then xs else s)"

text \<open>
  The head of the loop body as the specification words it, for comparison with the code:
  at most one leading \<open>*\<close> is removed, then at most one leading \<open>!\<close>.
\<close>

definition line_parts_one_marker :: "pystr \<Rightarrow> pystr list option" where
  "line_parts_one_marker raw =
     (let line = strip raw in
      if line = [] \<or> startswith line (str ''//'') then None
      else
        let line = strip_one 33 (strip_one 42 line);
            parts = py_split 46 line
        in Some (filter (\<lambda>p. p \<noteq> []) parts))"

section \<open>Strings and dictionaries\<close>

lemma py_in_iff_sublist: "py_in sub s \<longleftrightarrow> sublist sub s"
  by (induction s) (auto simp: sublist_Cons_right)

lemma py_split_not_Nil: "py_split sep s \<noteq> []"
  by (induction s) (auto split: list.splits)

lemma py_split_no_sep: "w \<in> set (py_split sep s) \<Longrightarrow> sep \<notin> set w"
  by (induction s arbitrary: w) (auto split: if_splits list.splits)

lemma py_split_sublist: "w \<in> set (py_split sep s) \<Longrightarrow> sublist w s"
proof (induction s arbitrary: w)
  case Nil
  then show ?case by simp
next
  case (Cons c cs)
  show ?case
  proof (cases "c = sep")
    case True
    with Cons show ?thesis
      by (auto simp: sublist_Cons_right)
  next
    case False
    obtain v vs where split: "py_split sep cs = v # vs"
      using py_split_not_Nil [of sep cs] by (cases "py_split sep cs") auto
    have pre: "prefix v cs"
      using split
    proof (induction cs arbitrary: v vs)
      case Nil
      then show ?case by simp
    next
      case (Cons d ds)
      then show ?case
        by (auto split: if_splits list.splits)
    qed
    from Cons.prems False split have "w = c # v \<or> w \<in> set vs"
      by auto
    then show ?thesis
    proof
      assume "w = c # v"
      with pre show ?thesis
        by (simp add: prefix_imp_sublist)
    next
      assume "w \<in> set vs"
      with split Cons.IH [of w] show ?thesis
        by (simp add: sublist_Cons_right)
    qed
  qed
qed

subsection \<open>Dictionaries\<close>

lemma map_of_dd_update:
  "map_of (dd_update d f k m) = (map_of m)(k \<mapsto> f (dd_get d m k))"
  by (induction m) (auto simp: dd_get_def fun_eq_iff)

lemma keys_dd_update:
  "map fst (dd_update d f k m) = (if k \<in> fst ` set m then map fst m else map fst m @ [k])"
  by (induction m) force+

lemma distinct_dd_update:
  "distinct (map fst m) \<Longrightarrow> distinct (map fst (dd_update d f k m))"
  by (simp add: keys_dd_update)

section \<open>The parser as a fold over occurrences\<close>

lemma line_parts_labels: "line_parts raw = Some parts \<Longrightarrow> p \<in> set parts \<Longrightarrow> label p"
  by (auto simp: line_parts_def Let_def label_def split: if_splits dest: py_split_no_sep)

lemma suffix_pattern_SomeD:
  assumes "suffix_pattern excl raw = Some (tld, comps)"
  obtains parts where "line_parts raw = Some parts" and "2 \<le> length parts"
    and "last parts \<notin> excl" and "tld = last parts" and "comps = butlast parts"
proof (cases "line_parts raw")
  case None
  with assms show ?thesis by (simp add: suffix_pattern_def)
next
  case (Some parts)
  with assms have "\<not> (length parts < 2 \<or> last parts \<in> excl)"
    by (simp add: suffix_pattern_def split: if_splits)
  moreover from this Some assms have "tld = last parts" "comps = butlast parts"
    by (simp_all add: suffix_pattern_def)
  ultimately show ?thesis using Some that by auto
qed

lemma suffix_pattern_labels:
  assumes "suffix_pattern excl raw = Some (tld, comps)"
  shows "label tld" and "tld \<notin> excl" and "\<forall>c\<in>set comps. label c" and "comps \<noteq> []"
proof -
  from assms obtain parts where parts: "line_parts raw = Some parts" "2 \<le> length parts"
    "last parts \<notin> excl" "tld = last parts" "comps = butlast parts"
    by (rule suffix_pattern_SomeD)
  then have ne: "parts \<noteq> []" by auto
  then have "last parts \<in> set parts" by simp
  with parts(1,4) show "label tld" by (simp add: line_parts_labels)
  from parts(3,4) show "tld \<notin> excl" by simp
  from parts(1,5) show "\<forall>c\<in>set comps. label c"
    by (metis in_set_butlastD line_parts_labels)
  from parts(2,5) show "comps \<noteq> []" by (cases parts rule: rev_cases) auto
qed

lemma line_occurrences_labels:
  assumes oc: "oc \<in> set (line_occurrences excl raw)"
  shows "label (fst oc) \<and> label (snd oc) \<and> snd oc \<notin> excl"
proof (cases "suffix_pattern excl raw")
  case None
  with oc show ?thesis by (simp add: line_occurrences_def)
next
  case (Some p)
  obtain tld comps where p: "p = (tld, comps)" by (cases p)
  from Some p have "suffix_pattern excl raw = Some (tld, comps)" by simp
  note l = suffix_pattern_labels [OF this]
  from oc Some p have "fst oc \<in> set comps" "snd oc = tld"
    by (auto simp: line_occurrences_def)
  with l show ?thesis by simp
qed

lemma occurrences_labels:
  "oc \<in> set (occurrences excl lines) \<Longrightarrow> label (fst oc) \<and> label (snd oc) \<and> snd oc \<notin> excl"
  unfolding occurrences_def using line_occurrences_labels by fastforce

lemma foldl_add_component:
  "foldl (add_component tld) ix comps = foldl add_occurrence ix (map (\<lambda>c. (c, tld)) comps)"
  by (induction comps arbitrary: ix) (simp_all add: add_occurrence_def)

lemma parse_line_occurrences:
  "parse_line excl ix raw = foldl add_occurrence ix (line_occurrences excl raw)"
  by (auto simp: parse_line_def line_occurrences_def suffix_pattern_def Let_def foldl_add_component
      split: option.splits)

lemma foldl_parse_line:
  "foldl (parse_line excl) ix lines = foldl add_occurrence ix (occurrences excl lines)"
  by (induction lines arbitrary: ix) (simp_all add: occurrences_def parse_line_occurrences)

lemma parse_domains_occurrences:
  "parse_domains lines excl = foldl add_occurrence empty_indexes (occurrences excl lines)"
  by (simp add: parse_domains_def foldl_parse_line)

lemma build_Nil: "build [] = empty_indexes"
  by (simp add: build_def)

lemma build_snoc: "build (ocs @ [oc]) = add_occurrence (build ocs) oc"
  by (simp add: build_def)

lemma build_component_tlds:
  "\<forall>oc\<in>set ocs. fst oc \<noteq> [] \<Longrightarrow>
   map_of (component_tlds (build ocs)) c =
     (if c \<in> fst ` set ocs then Some {t. (c, t) \<in> set ocs} else None)"
proof (induction ocs arbitrary: c rule: rev_induct)
  case Nil
  then show ?case by (simp add: build_Nil empty_indexes_def)
next
  case (snoc oc ocs)
  obtain k t where oc: "oc = (k, t)" by (cases oc)
  from snoc.prems oc have k: "k \<noteq> []" by simp
  from snoc have IH: "\<And>c. map_of (component_tlds (build ocs)) c =
     (if c \<in> fst ` set ocs then Some {t. (c, t) \<in> set ocs} else None)"
    by simp
  show ?case
    using k by (auto simp: build_snoc oc add_occurrence_def add_component_def map_of_dd_update
        dd_get_def IH image_iff)
qed

lemma build_component_total_count:
  "\<forall>oc\<in>set ocs. fst oc \<noteq> [] \<Longrightarrow>
   map_of (component_total_count (build ocs)) c =
     (if c \<in> fst ` set ocs then Some (int (length (filter (\<lambda>oc. fst oc = c) ocs))) else None)"
proof (induction ocs arbitrary: c rule: rev_induct)
  case Nil
  then show ?case by (simp add: build_Nil empty_indexes_def)
next
  case (snoc oc ocs)
  obtain k t where oc: "oc = (k, t)" by (cases oc)
  from snoc.prems oc have k: "k \<noteq> []" by simp
  from snoc have IH: "\<And>c. map_of (component_total_count (build ocs)) c =
     (if c \<in> fst ` set ocs then Some (int (length (filter (\<lambda>oc. fst oc = c) ocs))) else None)"
    by simp
  have none: "k \<notin> fst ` set ocs \<Longrightarrow> filter (\<lambda>oc. fst oc = k) ocs = []"
    by (auto simp: filter_empty_conv)
  show ?case
    using k none by (auto simp: build_snoc oc add_occurrence_def add_component_def map_of_dd_update
        dd_get_def IH)
qed

lemma build_tld_components:
  "\<forall>oc\<in>set ocs. fst oc \<noteq> [] \<Longrightarrow>
   map_of (tld_components (build ocs)) t =
     (if t \<in> snd ` set ocs then Some (map fst (filter (\<lambda>oc. snd oc = t) ocs)) else None)"
proof (induction ocs arbitrary: t rule: rev_induct)
  case Nil
  then show ?case by (simp add: build_Nil empty_indexes_def)
next
  case (snoc oc ocs)
  obtain k u where oc: "oc = (k, u)" by (cases oc)
  from snoc.prems oc have k: "k \<noteq> []" by simp
  from snoc have IH: "\<And>t. map_of (tld_components (build ocs)) t =
     (if t \<in> snd ` set ocs then Some (map fst (filter (\<lambda>oc. snd oc = t) ocs)) else None)"
    by simp
  have none: "u \<notin> snd ` set ocs \<Longrightarrow> filter (\<lambda>oc. snd oc = u) ocs = []"
    by (auto simp: filter_empty_conv)
  show ?case
    using k none by (auto simp: build_snoc oc add_occurrence_def add_component_def map_of_dd_update
        dd_get_def IH)
qed

lemma build_distinct:
  "distinct (map fst (component_tlds (build ocs))) \<and>
   distinct (map fst (component_total_count (build ocs))) \<and>
   distinct (map fst (tld_components (build ocs)))"
proof (induction ocs rule: rev_induct)
  case Nil
  then show ?case by (simp add: build_Nil empty_indexes_def)
next
  case (snoc oc ocs)
  then show ?case
    by (simp add: build_snoc add_occurrence_def add_component_def distinct_dd_update)
qed

lemma parse_domains_build: "parse_domains lines excl = build (occurrences excl lines)"
  by (simp add: parse_domains_occurrences build_def)

lemma occurrences_fst_nonempty: "\<forall>oc\<in>set (occurrences excl lines). fst oc \<noteq> []"
  using occurrences_labels by (auto simp: label_def)

lemmas parsed_component_tlds =
  build_component_tlds [OF occurrences_fst_nonempty, folded parse_domains_build]
lemmas parsed_component_total_count =
  build_component_total_count [OF occurrences_fst_nonempty, folded parse_domains_build]
lemmas parsed_tld_components =
  build_tld_components [OF occurrences_fst_nonempty, folded parse_domains_build]
lemmas parsed_distinct = build_distinct [of "occurrences excl lines", folded parse_domains_build] for excl lines

lemma card_tlds_le_count:
  "card {t. (c, t) \<in> set ocs} \<le> length (filter (\<lambda>oc. fst oc = c) ocs)"
proof -
  have "{t. (c, t) \<in> set ocs} = snd ` set (filter (\<lambda>oc. fst oc = c) ocs)"
    by force
  then have "card {t. (c, t) \<in> set ocs} \<le> card (set (filter (\<lambda>oc. fst oc = c) ocs))"
    by (simp add: card_image_le)
  also have "\<dots> \<le> length (filter (\<lambda>oc. fst oc = c) ocs)"
    by (rule card_length)
  finally show ?thesis .
qed

text \<open>The definitions that the simplifier unfolds to run the parser on a concrete input.\<close>

lemmas run_defs =
  parse_domains_def parse_line_def line_parts_def strip_def lstrip_def startswith_def str_def
  is_space_def add_component_def empty_indexes_def calculate_frequencies_def Let_def

section \<open>The frequency views\<close>

text \<open>
  C4. For every sequence of lines and every exclusion set, each row \<open>(c, u)\<close> of the
  unique-TLD frequency view that \<open>calculate_frequencies\<close> derives from the parsed indexes
  has \<open>u\<close> equal to the cardinality of the TLD set of \<open>c\<close>, and \<open>u\<close> is at most the value of
  \<open>c\<close> in the total frequency view.
\<close>

theorem unique_tld_frequency_le_total:
  assumes freq: "calculate_frequencies (component_tlds (parse_domains lines excl))
             (component_total_count (parse_domains lines excl)) = (total_freq, unique_tld_freq)"
    and row: "(c, u) \<in> set unique_tld_freq"
  shows "\<exists>tlds n. map_of (component_tlds (parse_domains lines excl)) c = Some tlds \<and>
           u = int (card tlds) \<and> map_of total_freq c = Some n \<and> u \<le> n"
proof -
  let ?ix = "parse_domains lines excl"
  let ?ocs = "occurrences excl lines"
  from freq have total: "total_freq = component_total_count ?ix"
    and unique: "unique_tld_freq = map (\<lambda>(component, tlds). (component, int (card tlds))) (component_tlds ?ix)"
    by (simp_all add: calculate_frequencies_def Let_def)
  from row unique obtain tlds where mem: "(c, tlds) \<in> set (component_tlds ?ix)" and u: "u = int (card tlds)"
    by auto
  from mem parsed_distinct [of lines excl] have look: "map_of (component_tlds ?ix) c = Some tlds"
    by simp
  then have c: "c \<in> fst ` set ?ocs" and tlds: "tlds = {t. (c, t) \<in> set ?ocs}"
    by (simp_all add: parsed_component_tlds split: if_splits)
  from c have n: "map_of total_freq c = Some (int (length (filter (\<lambda>oc. fst oc = c) ?ocs)))"
    by (simp add: total parsed_component_total_count)
  from u tlds have "u \<le> int (length (filter (\<lambda>oc. fst oc = c) ?ocs))"
    using card_tlds_le_count [of c ?ocs] by simp
  with look u n show ?thesis by blast
qed

text \<open>
  The pattern \<open>a.a.example\<close>: the component \<open>a\<close> has total count 2 and one TLD.
\<close>

theorem unique_tld_frequency_le_total_witness:
  "calculate_frequencies (component_tlds (parse_domains [str ''a.a.example''] {}))
     (component_total_count (parse_domains [str ''a.a.example''] {})) =
     ([(str ''a'', 2)], [(str ''a'', 1)]) \<and>
   (str ''a'', 1::int) \<in> set [(str ''a'', 1)] \<and>
   (\<exists>tlds n. map_of (component_tlds (parse_domains [str ''a.a.example''] {})) (str ''a'') = Some tlds \<and>
      (1::int) = int (card tlds) \<and> map_of [(str ''a'', 2::int)] (str ''a'') = Some n \<and> 1 \<le> n)"
proof -
  have freq: "calculate_frequencies (component_tlds (parse_domains [str ''a.a.example''] {}))
     (component_total_count (parse_domains [str ''a.a.example''] {})) =
     ([(str ''a'', 2)], [(str ''a'', 1)])"
    by (simp add: run_defs)
  have row: "(str ''a'', 1) \<in> set [(str ''a'', 1::int)]"
    by simp
  note bound = unique_tld_frequency_le_total [OF freq row]
  show ?thesis
    by (rule conjI [OF freq conjI [OF row bound]])
qed

section \<open>The parser on the five-line scenario\<close>

text \<open>
  C3. On the lines \<open>ac\<close>, \<open>com.ac\<close>, \<open>*.sch.uk\<close>, \<open>!educ.ar\<close>, \<open>jp\<close> with the exclusion set
  \<open>{jp}\<close> the parser yields exactly \<open>com\<close> with TLD set \<open>{ac}\<close>, \<open>sch\<close> with \<open>{uk}\<close> and
  \<open>educ\<close> with \<open>{ar}\<close>, each with total count 1, and the TLD index that goes with them;
  the lines \<open>ac\<close> and \<open>jp\<close> leave any indexes as they are.
\<close>

theorem scenario_five_lines:
  "parse_domains [str ''ac'', str ''com.ac'', str ''*.sch.uk'', str ''!educ.ar'', str ''jp'']
     {str ''jp''} =
     \<lparr>component_tlds =
        [(str ''com'', {str ''ac''}), (str ''sch'', {str ''uk''}), (str ''educ'', {str ''ar''})],
      component_total_count = [(str ''com'', 1), (str ''sch'', 1), (str ''educ'', 1)],
      tld_components =
        [(str ''ac'', [str ''com'']), (str ''uk'', [str ''sch'']), (str ''ar'', [str ''educ''])]\<rparr> \<and>
   parse_line {str ''jp''} ix (str ''ac'') = ix \<and>
   parse_line {str ''jp''} ix (str ''jp'') = ix"
  by (simp add: run_defs)

section \<open>Invariants of the parsed indexes\<close>

subsection \<open>Sums over the indexes\<close>

lemma sum_dd_update_count:
  "sum_list (map snd (dd_update 0 (\<lambda>n. n + 1) k m)) = sum_list (map snd m) + (1::int)"
  by (induction m) auto

lemma sum_dd_update_append:
  "sum_list (map (\<lambda>(t, cs). length cs) (dd_update [] (\<lambda>cs. cs @ [c]) k m)) =
     Suc (sum_list (map (\<lambda>(t, cs). length cs) m))"
  by (induction m) auto

lemma build_keys_agree:
  "map fst (component_tlds (build ocs)) = map fst (component_total_count (build ocs))"
proof (induction ocs rule: rev_induct)
  case Nil
  then show ?case by (simp add: build_Nil empty_indexes_def)
next
  case (snoc oc ocs)
  have "fst ` set (component_tlds (build ocs)) = fst ` set (component_total_count (build ocs))"
    using arg_cong [OF snoc, of set] by simp
  with snoc show ?case
    by (simp add: build_snoc add_occurrence_def add_component_def keys_dd_update)
qed

lemma build_sums_agree:
  "sum_list (map snd (component_total_count (build ocs))) =
     int (sum_list (map (\<lambda>(t, cs). length cs) (tld_components (build ocs))))"
proof (induction ocs rule: rev_induct)
  case Nil
  then show ?case by (simp add: build_Nil empty_indexes_def)
next
  case (snoc oc ocs)
  then show ?case
    by (simp add: build_snoc add_occurrence_def add_component_def sum_dd_update_count
        sum_dd_update_append)
qed

text \<open>
  C9. After parsing any sequence of lines, the component-to-TLD-set index and the
  component-to-total-count index have the same keys, and the sum of all total counts is
  the sum of the lengths of all the component lists of the TLD index.
\<close>

theorem indexes_updated_together:
  "fst ` set (component_tlds (parse_domains lines excl)) =
     fst ` set (component_total_count (parse_domains lines excl)) \<and>
   sum_list (map snd (component_total_count (parse_domains lines excl))) =
     int (sum_list (map (\<lambda>(tld, cs). length cs) (tld_components (parse_domains lines excl))))"
proof
  show "fst ` set (component_tlds (parse_domains lines excl)) =
     fst ` set (component_total_count (parse_domains lines excl))"
    using arg_cong [OF build_keys_agree, of set "occurrences excl lines"]
    by (simp add: parse_domains_build)
  show "sum_list (map snd (component_total_count (parse_domains lines excl))) =
     int (sum_list (map (\<lambda>(tld, cs). length cs) (tld_components (parse_domains lines excl))))"
    by (simp add: parse_domains_build build_sums_agree)
qed

subsection \<open>Membership in the parsed indexes\<close>

lemma in_component_tlds:
  assumes "(c, tlds) \<in> set (component_tlds (parse_domains lines excl))"
  shows "c \<in> fst ` set (occurrences excl lines)"
    and "tlds = {t. (c, t) \<in> set (occurrences excl lines)}"
proof -
  from assms parsed_distinct [of lines excl]
  have "map_of (component_tlds (parse_domains lines excl)) c = Some tlds"
    by simp
  then show "c \<in> fst ` set (occurrences excl lines)"
    and "tlds = {t. (c, t) \<in> set (occurrences excl lines)}"
    by (simp_all add: parsed_component_tlds split: if_splits)
qed

lemma in_component_total_count:
  assumes "(c, n) \<in> set (component_total_count (parse_domains lines excl))"
  shows "c \<in> fst ` set (occurrences excl lines)"
    and "n = int (length (filter (\<lambda>oc. fst oc = c) (occurrences excl lines)))"
proof -
  from assms parsed_distinct [of lines excl]
  have "map_of (component_total_count (parse_domains lines excl)) c = Some n"
    by simp
  then show "c \<in> fst ` set (occurrences excl lines)"
    and "n = int (length (filter (\<lambda>oc. fst oc = c) (occurrences excl lines)))"
    by (simp_all add: parsed_component_total_count split: if_splits)
qed

lemma in_tld_components:
  assumes "(t, cs) \<in> set (tld_components (parse_domains lines excl))"
  shows "t \<in> snd ` set (occurrences excl lines)"
    and "cs = map fst (filter (\<lambda>oc. snd oc = t) (occurrences excl lines))"
proof -
  from assms parsed_distinct [of lines excl]
  have "map_of (tld_components (parse_domains lines excl)) t = Some cs"
    by simp
  then show "t \<in> snd ` set (occurrences excl lines)"
    and "cs = map fst (filter (\<lambda>oc. snd oc = t) (occurrences excl lines))"
    by (simp_all add: parsed_tld_components split: if_splits)
qed

text \<open>
  C10. Every component and every TLD that the parser stores in any of the three
  indexes (as a key, as a member of a TLD set or as an element of a component list) is a
  non-empty string without the character \<open>.\<close>.
\<close>

theorem stored_strings_are_labels:
  "(\<forall>(c, tlds) \<in> set (component_tlds (parse_domains lines excl)).
      label c \<and> (\<forall>t \<in> tlds. label t)) \<and>
   (\<forall>(c, n) \<in> set (component_total_count (parse_domains lines excl)). label c) \<and>
   (\<forall>(t, cs) \<in> set (tld_components (parse_domains lines excl)).
      label t \<and> (\<forall>c \<in> set cs. label c))"
proof (intro conjI ballI)
  fix p assume p: "p \<in> set (component_tlds (parse_domains lines excl))"
  obtain c tlds where [simp]: "p = (c, tlds)" by (cases p)
  from p have "c \<in> fst ` set (occurrences excl lines)"
    and "tlds = {t. (c, t) \<in> set (occurrences excl lines)}"
    by (simp_all add: in_component_tlds)
  then show "case p of (c, tlds) \<Rightarrow> label c \<and> (\<forall>t \<in> tlds. label t)"
    using occurrences_labels [of _ excl lines] by fastforce
next
  fix p assume p: "p \<in> set (component_total_count (parse_domains lines excl))"
  obtain c n where [simp]: "p = (c, n)" by (cases p)
  from p have "c \<in> fst ` set (occurrences excl lines)"
    by (simp add: in_component_total_count)
  then show "case p of (c, n) \<Rightarrow> label c"
    using occurrences_labels [of _ excl lines] by fastforce
next
  fix p assume p: "p \<in> set (tld_components (parse_domains lines excl))"
  obtain t cs where [simp]: "p = (t, cs)" by (cases p)
  from p have "t \<in> snd ` set (occurrences excl lines)"
    and "cs = map fst (filter (\<lambda>oc. snd oc = t) (occurrences excl lines))"
    by (simp_all add: in_tld_components)
  then show "case p of (t, cs) \<Rightarrow> label t \<and> (\<forall>c \<in> set cs. label c)"
    using occurrences_labels [of _ excl lines] by fastforce
qed

text \<open>The line \<open>*.sch.uk\<close> stores the component \<open>sch\<close> and the TLD \<open>uk\<close>.\<close>

theorem stored_strings_are_labels_witness:
  "(str ''sch'', {str ''uk''}) \<in> set (component_tlds (parse_domains [str ''*.sch.uk''] {})) \<and>
   (str ''sch'', 1) \<in> set (component_total_count (parse_domains [str ''*.sch.uk''] {})) \<and>
   (str ''uk'', [str ''sch'']) \<in> set (tld_components (parse_domains [str ''*.sch.uk''] {})) \<and>
   label (str ''sch'') \<and> label (str ''uk'')"
proof -
  have m1: "(str ''sch'', {str ''uk''}) \<in> set (component_tlds (parse_domains [str ''*.sch.uk''] {}))"
    by (simp add: run_defs)
  have m2: "(str ''sch'', 1) \<in> set (component_total_count (parse_domains [str ''*.sch.uk''] {}))"
    by (simp add: run_defs)
  have m3: "(str ''uk'', [str ''sch'']) \<in> set (tld_components (parse_domains [str ''*.sch.uk''] {}))"
    by (simp add: run_defs)
  note all = stored_strings_are_labels [of "[str ''*.sch.uk'']" "{}"]
  from all m1 have "label (str ''sch'') \<and> (\<forall>t \<in> {str ''uk''}. label t)"
    by blast
  with m1 m2 m3 show ?thesis
    by simp
qed

section \<open>Excluded TLDs\<close>

lemma suffix_pattern_excluded:
  "suffix_pattern excl raw = (if tld_excluded excl raw then None else suffix_pattern {} raw)"
  by (cases "line_parts raw") (auto simp: suffix_pattern_def tld_excluded_def)

lemma line_occurrences_excluded:
  "line_occurrences excl raw = (if tld_excluded excl raw then [] else line_occurrences {} raw)"
  by (simp add: line_occurrences_def suffix_pattern_excluded)

lemma occurrences_without_excluded:
  "occurrences excl lines = occurrences {} (filter (\<lambda>raw. \<not> tld_excluded excl raw) lines)"
  by (induction lines) (simp_all add: occurrences_def line_occurrences_excluded)

lemma parse_line_excluded: "tld_excluded excl raw \<Longrightarrow> parse_line excl ix raw = ix"
  by (simp add: parse_line_occurrences line_occurrences_excluded)

text \<open>
  C5. For every sequence of lines and every exclusion set, no excluded TLD is a member
  of any component's TLD set or a key of the TLD index, and none contributes to a count:
  the indexes are those of the lines whose TLD is not excluded, parsed with nothing
  excluded. A line whose TLD is excluded leaves the indexes as they are.
\<close>

theorem excluded_tlds_never_indexed:
  "(\<forall>(c, tlds) \<in> set (component_tlds (parse_domains lines excl)). tlds \<inter> excl = {}) \<and>
   (\<forall>(t, cs) \<in> set (tld_components (parse_domains lines excl)). t \<notin> excl) \<and>
   parse_domains lines excl =
     parse_domains (filter (\<lambda>raw. \<not> tld_excluded excl raw) lines) {} \<and>
   (\<forall>raw ix. tld_excluded excl raw \<longrightarrow> parse_line excl ix raw = ix)"
proof (intro conjI ballI allI impI)
  fix p assume p: "p \<in> set (component_tlds (parse_domains lines excl))"
  obtain c tlds where [simp]: "p = (c, tlds)" by (cases p)
  from p have "tlds = {t. (c, t) \<in> set (occurrences excl lines)}"
    by (simp add: in_component_tlds)
  then show "case p of (c, tlds) \<Rightarrow> tlds \<inter> excl = {}"
    using occurrences_labels [of _ excl lines] by fastforce
next
  fix p assume p: "p \<in> set (tld_components (parse_domains lines excl))"
  obtain t cs where [simp]: "p = (t, cs)" by (cases p)
  from p have "t \<in> snd ` set (occurrences excl lines)"
    by (simp add: in_tld_components)
  then show "case p of (t, cs) \<Rightarrow> t \<notin> excl"
    using occurrences_labels [of _ excl lines] by fastforce
next
  show "parse_domains lines excl =
     parse_domains (filter (\<lambda>raw. \<not> tld_excluded excl raw) lines) {}"
    by (simp add: parse_domains_build occurrences_without_excluded [of excl lines])
next
  fix raw ix assume "tld_excluded excl raw"
  then show "parse_line excl ix raw = ix"
    by (rule parse_line_excluded)
qed

text \<open>
  The lines \<open>co.jp\<close> and \<open>co.uk\<close> with \<open>jp\<close> excluded: only \<open>co.uk\<close> reaches the indexes.
\<close>

theorem excluded_tlds_never_indexed_witness:
  "tld_excluded {str ''jp''} (str ''co.jp'') \<and>
   parse_line {str ''jp''} empty_indexes (str ''co.jp'') = empty_indexes \<and>
   (str ''co'', {str ''uk''}) \<in>
     set (component_tlds (parse_domains [str ''co.jp'', str ''co.uk''] {str ''jp''})) \<and>
   {str ''uk''} \<inter> {str ''jp''} = {} \<and>
   (str ''uk'', [str ''co'']) \<in>
     set (tld_components (parse_domains [str ''co.jp'', str ''co.uk''] {str ''jp''})) \<and>
   str ''uk'' \<notin> {str ''jp''} \<and>
   parse_domains [str ''co.jp'', str ''co.uk''] {str ''jp''} = parse_domains [str ''co.uk''] {}"
proof -
  note all = excluded_tlds_never_indexed [of "[str ''co.jp'', str ''co.uk'']" "{str ''jp''}"]
  have ex: "tld_excluded {str ''jp''} (str ''co.jp'')"
    by (simp add: tld_excluded_def run_defs)
  have keep: "\<not> tld_excluded {str ''jp''} (str ''co.uk'')"
    by (simp add: tld_excluded_def run_defs)
  have m1: "(str ''co'', {str ''uk''}) \<in>
     set (component_tlds (parse_domains [str ''co.jp'', str ''co.uk''] {str ''jp''}))"
    by (simp add: run_defs)
  have m2: "(str ''uk'', [str ''co'']) \<in>
     set (tld_components (parse_domains [str ''co.jp'', str ''co.uk''] {str ''jp''}))"
    by (simp add: run_defs)
  from all ex have a: "parse_line {str ''jp''} empty_indexes (str ''co.jp'') = empty_indexes"
    by blast
  from all m1 have b: "{str ''uk''} \<inter> {str ''jp''} = {}"
    by blast
  from all m2 have c: "str ''uk'' \<notin> {str ''jp''}"
    by blast
  from all ex keep
  have d: "parse_domains [str ''co.jp'', str ''co.uk''] {str ''jp''} = parse_domains [str ''co.uk''] {}"
    by simp
  from ex a m1 b m2 c d show ?thesis
    by (intro conjI)
qed

section \<open>Order of the lines\<close>

lemma mset_occurrences:
  "mset (occurrences excl lines) =
     sum_mset (image_mset (\<lambda>raw. mset (line_occurrences excl raw)) (mset lines))"
  by (induction lines) (simp_all add: occurrences_def)

lemma occurrences_tld_in_line_order:
  "map fst (filter (\<lambda>oc. snd oc = tld) (occurrences excl lines)) =
     concat (map (components_under excl tld) lines)"
proof (induction lines)
  case Nil
  then show ?case by (simp add: occurrences_def)
next
  case (Cons raw lines)
  have "map fst (filter (\<lambda>oc. snd oc = tld) (line_occurrences excl raw)) =
     components_under excl tld raw"
    by (auto simp: line_occurrences_def components_under_def filter_map comp_def
        split: option.splits)
  with Cons show ?case
    by (simp add: occurrences_def)
qed

text \<open>
  C7. Parsing a permutation of a sequence of lines yields the same component-to-TLD-set
  map and the same component-to-total-count map as parsing the sequence itself, and the
  component list of each TLD holds the components of the lines with that TLD in the
  order of the lines.
\<close>

theorem final_indexes_order_independent:
  assumes perm: "mset lines' = mset lines"
  shows "map_of (component_tlds (parse_domains lines' excl)) =
           map_of (component_tlds (parse_domains lines excl)) \<and>
         map_of (component_total_count (parse_domains lines' excl)) =
           map_of (component_total_count (parse_domains lines excl)) \<and>
         (\<forall>(tld, cs) \<in> set (tld_components (parse_domains lines excl)).
            cs = concat (map (components_under excl tld) lines))"
proof (intro conjI ballI)
  from perm have ms: "mset (occurrences excl lines') = mset (occurrences excl lines)"
    by (simp add: mset_occurrences)
  then have sets: "set (occurrences excl lines') = set (occurrences excl lines)"
    by (rule mset_eq_setD)
  have len: "length (filter P (occurrences excl lines')) = length (filter P (occurrences excl lines))"
    for P
    using arg_cong [OF ms, of "\<lambda>M. size (filter_mset P M)"]
    by (simp flip: mset_filter)
  show "map_of (component_tlds (parse_domains lines' excl)) =
           map_of (component_tlds (parse_domains lines excl))"
    by (rule ext) (simp add: parsed_component_tlds sets)
  show "map_of (component_total_count (parse_domains lines' excl)) =
           map_of (component_total_count (parse_domains lines excl))"
    by (rule ext) (simp add: parsed_component_total_count sets len)
next
  fix p assume p: "p \<in> set (tld_components (parse_domains lines excl))"
  obtain tld cs where [simp]: "p = (tld, cs)" by (cases p)
  from p have "cs = map fst (filter (\<lambda>oc. snd oc = tld) (occurrences excl lines))"
    by (simp add: in_tld_components)
  then show "case p of (tld, cs) \<Rightarrow> cs = concat (map (components_under excl tld) lines)"
    by (simp add: occurrences_tld_in_line_order)
qed

text \<open>
  The lines \<open>a.com\<close>, \<open>b.com\<close> and their reversal: the maps agree, and the component list
  of \<open>com\<close> follows the order of the lines.
\<close>

theorem final_indexes_order_independent_witness:
  "mset [str ''b.com'', str ''a.com''] = mset [str ''a.com'', str ''b.com''] \<and>
   map_of (component_tlds (parse_domains [str ''b.com'', str ''a.com''] {})) =
     map_of (component_tlds (parse_domains [str ''a.com'', str ''b.com''] {})) \<and>
   map_of (component_total_count (parse_domains [str ''b.com'', str ''a.com''] {})) =
     map_of (component_total_count (parse_domains [str ''a.com'', str ''b.com''] {})) \<and>
   (str ''com'', [str ''a'', str ''b'']) \<in>
     set (tld_components (parse_domains [str ''a.com'', str ''b.com''] {})) \<and>
   [str ''a'', str ''b''] =
     concat (map (components_under {} (str ''com'')) [str ''a.com'', str ''b.com''])"
proof -
  have perm: "mset [str ''b.com'', str ''a.com''] = mset [str ''a.com'', str ''b.com'']"
    by (simp add: add.commute)
  have mem: "(str ''com'', [str ''a'', str ''b'']) \<in>
     set (tld_components (parse_domains [str ''a.com'', str ''b.com''] {}))"
    by (simp add: run_defs)
  note all = final_indexes_order_independent [OF perm, of "{}"]
  from all mem have "[str ''a'', str ''b''] =
     concat (map (components_under {} (str ''com'')) [str ''a.com'', str ''b.com''])"
    by blast
  with perm all mem show ?thesis
    by blast
qed

section \<open>The ranked tables\<close>

lemma rank_key_less:
  "rank_key a < rank_key b \<longleftrightarrow> snd b < snd a \<or> (snd b = snd a \<and> fst a < fst b)"
  by (auto simp: rank_key_def less_prod_def)

lemma inj_rank_key: "inj rank_key"
  by (auto simp: inj_on_def rank_key_def prod_eq_iff)

lemma csv_rows_strictly_sorted:
  assumes "distinct (map fst data)"
  shows "sorted_wrt (\<lambda>a b. rank_key a < rank_key b) (csv_rows data)"
proof -
  from assms have "distinct data"
    by (simp add: distinct_map)
  then have "distinct (map rank_key data)"
    by (simp add: distinct_map inj_rank_key [THEN inj_on_subset])
  moreover have "mset (map rank_key (csv_rows data)) = mset (map rank_key data)"
    by (simp add: csv_rows_def)
  ultimately have "distinct (map rank_key (csv_rows data))"
    by (metis mset_eq_imp_distinct_iff)
  moreover have "sorted (map rank_key (csv_rows data))"
    by (simp add: csv_rows_def)
  ultimately have "sorted_wrt (<) (map rank_key (csv_rows data))"
    by (simp add: strict_sorted_iff)
  then show ?thesis
    by (simp add: sorted_wrt_map)
qed

lemma frequency_views_distinct:
  assumes "calculate_frequencies (component_tlds (parse_domains lines excl))
             (component_total_count (parse_domains lines excl)) = (total_freq, unique_tld_freq)"
  shows "distinct (map fst total_freq)" and "distinct (map fst unique_tld_freq)"
proof -
  from assms have total: "total_freq = component_total_count (parse_domains lines excl)"
    and unique: "unique_tld_freq =
      map (\<lambda>(component, tlds). (component, int (card tlds))) (component_tlds (parse_domains lines excl))"
    by (simp_all add: calculate_frequencies_def Let_def)
  from total show "distinct (map fst total_freq)"
    by (simp add: parsed_distinct)
  have "map fst unique_tld_freq = map fst (component_tlds (parse_domains lines excl))"
    by (simp add: unique comp_def case_prod_unfold)
  then show "distinct (map fst unique_tld_freq)"
    by (simp add: parsed_distinct)
qed

text \<open>
  C6. For every frequency view (a dictionary, so with distinct keys), the table that
  the report writer puts under the header is a rearrangement of the view's items in
  which every row comes strictly before every later row: the earlier row has the greater
  value or, with equal values, the smaller component string.
\<close>

theorem ranked_table_strictly_sorted:
  assumes "distinct (map fst data)"
  shows "\<exists>rows. write_csv filename data fs filename = Some (Csv [''string'', ''frequency''] rows) \<and>
           mset rows = mset data \<and>
           sorted_wrt (\<lambda>(s, v) (s', v'). v' < v \<or> (v' = v \<and> s < s')) rows"
proof -
  have "sorted_wrt (\<lambda>(s, v) (s', v'). v' < v \<or> (v' = v \<and> s < s')) (csv_rows data)"
    using csv_rows_strictly_sorted [OF assms]
    by (rule sorted_wrt_mono_rel [rotated]) (auto simp: rank_key_less)
  moreover have "mset (csv_rows data) = mset data"
    by (simp add: csv_rows_def)
  ultimately show ?thesis
    by (simp add: write_csv_def)
qed

text \<open>Three rows, two of them with equal values.\<close>

theorem ranked_table_strictly_sorted_witness:
  "distinct (map fst [(str ''b'', 1::int), (str ''a'', 1), (str ''c'', 5)]) \<and>
   write_csv ''t.csv'' [(str ''b'', 1), (str ''a'', 1), (str ''c'', 5)] Map.empty ''t.csv'' =
     Some (Csv [''string'', ''frequency''] [(str ''c'', 5), (str ''a'', 1), (str ''b'', 1)]) \<and>
   (\<exists>rows. write_csv ''t.csv'' [(str ''b'', 1), (str ''a'', 1), (str ''c'', 5)] Map.empty ''t.csv'' =
       Some (Csv [''string'', ''frequency''] rows) \<and>
       mset rows = mset [(str ''b'', 1), (str ''a'', 1), (str ''c'', 5)] \<and>
       sorted_wrt (\<lambda>(s, v) (s', v'). v' < v \<or> (v' = v \<and> s < s')) rows)"
proof -
  have d: "distinct (map fst [(str ''b'', 1::int), (str ''a'', 1), (str ''c'', 5)])"
    by (simp add: str_def)
  have w: "write_csv ''t.csv'' [(str ''b'', 1), (str ''a'', 1), (str ''c'', 5)] Map.empty ''t.csv'' =
     Some (Csv [''string'', ''frequency''] [(str ''c'', 5), (str ''a'', 1), (str ''b'', 1)])"
    by (simp add: write_csv_def csv_rows_def rank_key_def str_def)
  note s = ranked_table_strictly_sorted [OF d, of "''t.csv''" Map.empty]
  show ?thesis
    by (rule conjI [OF d conjI [OF w s]])
qed

section \<open>A run without the end marker\<close>

lemma find_markers_no_end:
  "\<forall>l\<in>set ls. \<not> py_in end_marker l \<Longrightarrow> snd (find_markers idx start_idx ls) = None"
  by (induction ls arbitrary: idx start_idx) simp_all

lemma lines_without_marker:
  assumes "\<not> py_in m text" and "l \<in> set (py_split sep text)"
  shows "\<not> py_in m l"
proof
  assume "py_in m l"
  then have "sublist m l" by (simp add: py_in_iff_sublist)
  moreover from assms(2) have "sublist l text" by (rule py_split_sublist)
  ultimately have "sublist m text" by (rule sublist_order.order_trans)
  with assms(1) show False by (simp add: py_in_iff_sublist)
qed

lemma extract_no_end_marker:
  assumes "\<not> py_in end_marker psl_content"
  shows "extract_icann_domains psl_content =
           Inl (ValueError ''Could not find ICANN domains section markers'')"
proof -
  have "snd (find_markers 0 None (py_split 10 psl_content)) = None"
    using assms by (intro find_markers_no_end ballI) (rule lines_without_marker)
  then show ?thesis
    by (cases "find_markers 0 None (py_split 10 psl_content)")
      (simp add: extract_icann_domains_def split: option.splits)
qed

text \<open>
  C8. When the end marker does not occur in the input text, the run ends with the
  markers-not-found error and the files are as they were before the run. More generally,
  whenever the fetch or the section extraction fails, the run ends with that error and no
  writer has touched the files: the writers come after extraction and parsing.
\<close>

theorem missing_end_marker_no_output:
  "(\<not> py_in end_marker psl_content \<longrightarrow>
      main (Inr psl_content) fs =
        (Inl (ValueError ''Could not find ICANN domains section markers''), fs)) \<and>
   (\<forall>text e. extract_icann_domains text = Inl e \<longrightarrow> main (Inr text) fs = (Inl e, fs)) \<and>
   (\<forall>e. main (Inl e) fs = (Inl e, fs))"
  by (simp add: main_def extract_no_end_marker)

text \<open>A text with the start marker alone, and no file before the run.\<close>

theorem missing_end_marker_no_output_witness:
  "\<not> py_in end_marker (start_marker @ [10] @ str ''com.ac'') \<and>
   main (Inr (start_marker @ [10] @ str ''com.ac'')) Map.empty =
     (Inl (ValueError ''Could not find ICANN domains section markers''), Map.empty)"
proof -
  have h: "\<not> py_in end_marker (start_marker @ [10] @ str ''com.ac'')"
    by (simp add: end_marker_def start_marker_def str_def)
  from missing_end_marker_no_output [of "start_marker @ [10] @ str ''com.ac''" Map.empty] h
  have "main (Inr (start_marker @ [10] @ str ''com.ac'')) Map.empty =
     (Inl (ValueError ''Could not find ICANN domains section markers''), Map.empty)"
    by blast
  with h show ?thesis
    by simp
qed

section \<open>What the section extractor returns\<close>

lemma find_markers_skip:
  "\<forall>l\<in>set sec. \<not> py_in start_marker l \<and> \<not> py_in end_marker l \<Longrightarrow>
   find_markers idx st (sec @ rest) = find_markers (idx + length sec) st rest"
  by (induction sec arbitrary: idx) simp_all

lemma find_markers_before_start:
  "\<forall>l\<in>set pre. \<not> end_line l \<Longrightarrow> py_in start_marker s \<Longrightarrow>
   find_markers idx st (pre @ s # rest) =
     find_markers (idx + length pre + 1) (Some (idx + length pre + 1)) rest"
  by (induction pre arbitrary: idx st) (auto simp: end_line_def)

lemma find_markers_decomposed:
  assumes "\<forall>l\<in>set pre. \<not> end_line l" and "py_in start_marker s"
    and "\<forall>l\<in>set sec. \<not> py_in start_marker l \<and> \<not> py_in end_marker l" and "end_line e"
  shows "find_markers 0 None (pre @ [s] @ sec @ [e] @ post) =
           (Some (length pre + 1), Some (length pre + 1 + length sec))"
  using assms
  by (simp add: find_markers_before_start find_markers_skip) (simp add: end_line_def)

lemma find_markers_end:
  "find_markers idx st ls = (sa, Some b) \<Longrightarrow>
   \<exists>before e post. ls = before @ [e] @ post \<and> end_line e \<and> (\<forall>l\<in>set before. \<not> end_line l) \<and>
      b = idx + length before \<and>
      ((\<forall>l\<in>set before. \<not> py_in start_marker l) \<and> sa = st \<or>
       (\<exists>pre s sec. before = pre @ [s] @ sec \<and> py_in start_marker s \<and>
          (\<forall>l\<in>set sec. \<not> py_in start_marker l) \<and> sa = Some (idx + length pre + 1)))"
proof (induction ls arbitrary: idx st)
  case Nil
  then show ?case by simp
next
  case (Cons l rest)
  show ?case
  proof (cases "py_in start_marker l")
    case True
    with Cons.prems have "find_markers (idx + 1) (Some (idx + 1)) rest = (sa, Some b)"
      by simp
    from Cons.IH [OF this] obtain before e post where
      rest: "rest = before @ [e] @ post" "end_line e" "\<forall>l\<in>set before. \<not> end_line l"
        "b = idx + 1 + length before"
      and alt: "(\<forall>l\<in>set before. \<not> py_in start_marker l) \<and> sa = Some (idx + 1) \<or>
        (\<exists>pre s sec. before = pre @ [s] @ sec \<and> py_in start_marker s \<and>
          (\<forall>l\<in>set sec. \<not> py_in start_marker l) \<and> sa = Some (idx + 1 + length pre + 1))"
      by blast
    from alt have "\<exists>pre s sec. l # before = pre @ [s] @ sec \<and> py_in start_marker s \<and>
          (\<forall>l\<in>set sec. \<not> py_in start_marker l) \<and> sa = Some (idx + length pre + 1)"
    proof
      assume "(\<forall>l\<in>set before. \<not> py_in start_marker l) \<and> sa = Some (idx + 1)"
      with True have "l # before = [] @ [l] @ before \<and> py_in start_marker l \<and>
          (\<forall>l\<in>set before. \<not> py_in start_marker l) \<and> sa = Some (idx + length ([]::pystr list) + 1)"
        by simp
      then show ?thesis by blast
    next
      assume "\<exists>pre s sec. before = pre @ [s] @ sec \<and> py_in start_marker s \<and>
          (\<forall>l\<in>set sec. \<not> py_in start_marker l) \<and> sa = Some (idx + 1 + length pre + 1)"
      then obtain pre s sec where "before = pre @ [s] @ sec" "py_in start_marker s"
          "\<forall>l\<in>set sec. \<not> py_in start_marker l" "sa = Some (idx + 1 + length pre + 1)"
        by blast
      then have "l # before = (l # pre) @ [s] @ sec \<and> py_in start_marker s \<and>
          (\<forall>l\<in>set sec. \<not> py_in start_marker l) \<and> sa = Some (idx + length (l # pre) + 1)"
        by simp
      then show ?thesis by blast
    qed
    moreover from rest True have "l # rest = (l # before) @ [e] @ post" "end_line e"
      "\<forall>x\<in>set (l # before). \<not> end_line x" "b = idx + length (l # before)"
      by (simp_all add: end_line_def)
    ultimately show ?thesis by blast
  next
    case False
    show ?thesis
    proof (cases "py_in end_marker l")
      case True
      with False Cons.prems have "sa = st" "b = idx"
        by simp_all
      with True False have "l # rest = [] @ [l] @ rest \<and> end_line l \<and>
        (\<forall>x\<in>set ([]::pystr list). \<not> end_line x) \<and> b = idx + length ([]::pystr list) \<and>
        (\<forall>x\<in>set ([]::pystr list). \<not> py_in start_marker x) \<and> sa = st"
        by (simp add: end_line_def)
      then show ?thesis by blast
    next
      case noend: False
      with False Cons.prems have "find_markers (idx + 1) st rest = (sa, Some b)"
        by simp
      from Cons.IH [OF this] obtain before e post where
        rest: "rest = before @ [e] @ post" "end_line e" "\<forall>l\<in>set before. \<not> end_line l"
          "b = idx + 1 + length before"
        and alt: "(\<forall>l\<in>set before. \<not> py_in start_marker l) \<and> sa = st \<or>
          (\<exists>pre s sec. before = pre @ [s] @ sec \<and> py_in start_marker s \<and>
            (\<forall>l\<in>set sec. \<not> py_in start_marker l) \<and> sa = Some (idx + 1 + length pre + 1))"
        by blast
      from alt have "(\<forall>x\<in>set (l # before). \<not> py_in start_marker x) \<and> sa = st \<or>
          (\<exists>pre s sec. l # before = pre @ [s] @ sec \<and> py_in start_marker s \<and>
            (\<forall>l\<in>set sec. \<not> py_in start_marker l) \<and> sa = Some (idx + length pre + 1))"
      proof
        assume "(\<forall>l\<in>set before. \<not> py_in start_marker l) \<and> sa = st"
        with False show ?thesis by simp
      next
        assume "\<exists>pre s sec. before = pre @ [s] @ sec \<and> py_in start_marker s \<and>
            (\<forall>l\<in>set sec. \<not> py_in start_marker l) \<and> sa = Some (idx + 1 + length pre + 1)"
        then obtain pre s sec where "before = pre @ [s] @ sec" "py_in start_marker s"
            "\<forall>l\<in>set sec. \<not> py_in start_marker l" "sa = Some (idx + 1 + length pre + 1)"
          by blast
        then have "l # before = (l # pre) @ [s] @ sec \<and> py_in start_marker s \<and>
            (\<forall>l\<in>set sec. \<not> py_in start_marker l) \<and> sa = Some (idx + length (l # pre) + 1)"
          by simp
        then show ?thesis by blast
      qed
      moreover from rest noend have "l # rest = (l # before) @ [e] @ post" "end_line e"
        "\<forall>x\<in>set (l # before). \<not> end_line x" "b = idx + length (l # before)"
        by (simp_all add: end_line_def)
      ultimately show ?thesis by blast
    qed
  qed
qed

lemma slice_section:
  "drop (length pre + 1) (take (length pre + 1 + length sec) (pre @ [s] @ sec @ [e] @ post)) = sec"
  by simp

text \<open>
  C1, as the code has it. A text is cut at its first line that contains the end marker
  and not the start marker. The extractor returns \<open>section\<close> exactly when the lines are
  some \<open>pre\<close>, a line \<open>s\<close> with the start marker, \<open>section\<close>, that end line \<open>e\<close> and some
  \<open>post\<close>, where no line of \<open>section\<close> contains a marker: \<open>s\<close> is the last line with the
  start marker before the end line, and what follows the end line is ignored. In every
  other case it raises the markers-not-found error.
\<close>

theorem extract_last_start_first_end:
  "(extract_icann_domains text = Inr section \<longleftrightarrow>
      (\<exists>pre s e post. py_split 10 text = pre @ [s] @ section @ [e] @ post \<and>
         (\<forall>l\<in>set pre. \<not> end_line l) \<and> py_in start_marker s \<and>
         (\<forall>l\<in>set section. \<not> py_in start_marker l \<and> \<not> py_in end_marker l) \<and>
         end_line e)) \<and>
   (\<forall>err. extract_icann_domains text = Inl err \<longrightarrow>
      err = ValueError ''Could not find ICANN domains section markers'')"
proof (intro conjI iffI allI impI)
  assume ex: "extract_icann_domains text = Inr section"
  let ?ls = "py_split 10 text"
  from ex obtain a b where fm: "find_markers 0 None ?ls = (Some a, Some b)"
    and sec: "section = drop a (take b ?ls)"
    by (auto simp: extract_icann_domains_def Let_def split: prod.splits option.splits)
  from find_markers_end [OF fm] obtain before e post where
    ls: "?ls = before @ [e] @ post" and e: "end_line e"
    and before: "\<forall>l\<in>set before. \<not> end_line l" and b0: "b = 0 + length before"
    and alt: "(\<forall>l\<in>set before. \<not> py_in start_marker l) \<and> Some a = None \<or>
       (\<exists>pre s sec. before = pre @ [s] @ sec \<and> py_in start_marker s \<and>
          (\<forall>l\<in>set sec. \<not> py_in start_marker l) \<and> Some a = Some (0 + length pre + 1))"
    by blast
  from b0 have b: "b = length before"
    by simp
  from alt have "\<exists>pre s sec. before = pre @ [s] @ sec \<and> py_in start_marker s \<and>
          (\<forall>l\<in>set sec. \<not> py_in start_marker l) \<and> Some a = Some (0 + length pre + 1)"
    by simp
  then obtain pre s sec' where bf: "before = pre @ [s] @ sec'" and s: "py_in start_marker s"
    and nostart: "\<forall>l\<in>set sec'. \<not> py_in start_marker l"
    and a0: "Some a = Some (0 + length pre + 1)"
    by blast
  from a0 have a: "a = length pre + 1"
    by simp
  from ls bf have whole: "?ls = pre @ [s] @ sec' @ [e] @ post"
    by simp
  from sec a b bf have "section = drop (length pre + 1)
      (take (length pre + 1 + length sec') (pre @ [s] @ sec' @ [e] @ post))"
    by (simp add: whole)
  then have eq: "section = sec'"
    by (simp only: slice_section)
  from before bf nostart have "\<forall>l\<in>set sec'. \<not> py_in start_marker l \<and> \<not> py_in end_marker l"
    by (auto simp: end_line_def)
  moreover from before bf have "\<forall>l\<in>set pre. \<not> end_line l"
    by simp
  ultimately show "\<exists>pre s e post. py_split 10 text = pre @ [s] @ section @ [e] @ post \<and>
         (\<forall>l\<in>set pre. \<not> end_line l) \<and> py_in start_marker s \<and>
         (\<forall>l\<in>set section. \<not> py_in start_marker l \<and> \<not> py_in end_marker l) \<and>
         end_line e"
    using whole s e unfolding eq by blast
next
  assume "\<exists>pre s e post. py_split 10 text = pre @ [s] @ section @ [e] @ post \<and>
         (\<forall>l\<in>set pre. \<not> end_line l) \<and> py_in start_marker s \<and>
         (\<forall>l\<in>set section. \<not> py_in start_marker l \<and> \<not> py_in end_marker l) \<and>
         end_line e"
  then obtain pre s e post where ls: "py_split 10 text = pre @ [s] @ section @ [e] @ post"
    and h: "\<forall>l\<in>set pre. \<not> end_line l" "py_in start_marker s"
      "\<forall>l\<in>set section. \<not> py_in start_marker l \<and> \<not> py_in end_marker l" "end_line e"
    by blast
  from find_markers_decomposed [OF h, of post]
  show "extract_icann_domains text = Inr section"
    by (simp only: extract_icann_domains_def Let_def ls prod.case option.case slice_section)
next
  fix err assume "extract_icann_domains text = Inl err"
  then show "err = ValueError ''Could not find ICANN domains section markers''"
    by (auto simp: extract_icann_domains_def Let_def split: prod.splits option.splits)
qed

text \<open>
  A text whose lines are the start marker, \<open>a\<close>, the start marker again, \<open>b\<close> and the end
  marker: the code returns the line \<open>b\<close> alone, where the first start marker and the
  first end marker after it enclose \<open>a\<close>, the second start marker and \<open>b\<close>.
\<close>

theorem extract_first_start_counterexample:
  "py_split 10 (start_marker @ [10] @ str ''a'' @ [10] @ start_marker @ [10] @ str ''b'' @ [10] @
      end_marker) = [start_marker, str ''a'', start_marker, str ''b'', end_marker] \<and>
   extract_icann_domains (start_marker @ [10] @ str ''a'' @ [10] @ start_marker @ [10] @
      str ''b'' @ [10] @ end_marker) = Inr [str ''b''] \<and>
   extract_first_markers (start_marker @ [10] @ str ''a'' @ [10] @ start_marker @ [10] @
      str ''b'' @ [10] @ end_marker) = Inr [str ''a'', start_marker, str ''b''] \<and>
   extract_icann_domains (start_marker @ [10] @ str ''a'' @ [10] @ start_marker @ [10] @
      str ''b'' @ [10] @ end_marker) \<noteq>
   extract_first_markers (start_marker @ [10] @ str ''a'' @ [10] @ start_marker @ [10] @
      str ''b'' @ [10] @ end_marker)"
  by (simp add: extract_icann_domains_def extract_first_markers_def start_marker_def
      end_marker_def str_def)

text \<open>The same text: the section is the line \<open>b\<close>, after the second start marker.\<close>

theorem extract_last_start_first_end_witness:
  "py_split 10 (start_marker @ [10] @ str ''a'' @ [10] @ start_marker @ [10] @ str ''b'' @ [10] @
      end_marker) = [start_marker, str ''a''] @ [start_marker] @ [str ''b''] @ [end_marker] @ [] \<and>
   \<not> end_line start_marker \<and> \<not> end_line (str ''a'') \<and> py_in start_marker start_marker \<and>
   \<not> py_in start_marker (str ''b'') \<and> \<not> py_in end_marker (str ''b'') \<and> end_line end_marker \<and>
   extract_icann_domains (start_marker @ [10] @ str ''a'' @ [10] @ start_marker @ [10] @
      str ''b'' @ [10] @ end_marker) = Inr [str ''b'']"
proof -
  let ?text = "start_marker @ [10] @ str ''a'' @ [10] @ start_marker @ [10] @ str ''b'' @ [10] @
      end_marker"
  have ls: "py_split 10 ?text =
      [start_marker, str ''a''] @ [start_marker] @ [str ''b''] @ [end_marker] @ []"
    by (simp add: start_marker_def end_marker_def str_def)
  have h: "\<not> end_line start_marker" "\<not> end_line (str ''a'')" "py_in start_marker start_marker"
    "\<not> py_in start_marker (str ''b'')" "\<not> py_in end_marker (str ''b'')" "end_line end_marker"
    by (simp_all add: end_line_def start_marker_def end_marker_def str_def)
  from h have "py_split 10 ?text =
           [start_marker, str ''a''] @ [start_marker] @ [str ''b''] @ [end_marker] @ [] \<and>
         (\<forall>l\<in>set [start_marker, str ''a'']. \<not> end_line l) \<and> py_in start_marker start_marker \<and>
         (\<forall>l\<in>set [str ''b'']. \<not> py_in start_marker l \<and> \<not> py_in end_marker l) \<and>
         end_line end_marker"
    using ls by simp
  then have "\<exists>pre s e post. py_split 10 ?text = pre @ [s] @ [str ''b''] @ [e] @ post \<and>
         (\<forall>l\<in>set pre. \<not> end_line l) \<and> py_in start_marker s \<and>
         (\<forall>l\<in>set [str ''b'']. \<not> py_in start_marker l \<and> \<not> py_in end_marker l) \<and>
         end_line e"
    by (intro exI)
  with extract_last_start_first_end [of ?text "[str ''b'']"]
  have "extract_icann_domains ?text = Inr [str ''b'']"
    by blast
  with ls h show ?thesis
    by simp
qed

section \<open>Wildcard and exception markers\<close>

lemma dropWhile_replicate:
  "P x \<Longrightarrow> dropWhile P (replicate k x @ ys) = dropWhile P ys"
  by (induction k) simp_all

lemma dropWhile_no_prefix:
  "\<not> prefix [x] ys \<Longrightarrow> dropWhile (\<lambda>c. c = x) ys = ys"
  by (cases ys) simp_all

lemma lstrip_markers:
  assumes "\<not> prefix [33] rest" and "n = 0 \<longrightarrow> \<not> prefix [42] rest"
  shows "lstrip (str ''!'') (lstrip (str ''*'') (replicate m 42 @ replicate n 33 @ rest)) = rest"
proof -
  have "dropWhile (\<lambda>c. c \<in> set [42::nat]) (replicate n 33 @ rest) = replicate n 33 @ rest"
    using assms(2) by (cases n) (simp_all add: dropWhile_no_prefix)
  then have "lstrip (str ''*'') (replicate m 42 @ replicate n 33 @ rest) = replicate n 33 @ rest"
    by (simp add: lstrip_def str_def dropWhile_replicate)
  moreover have "lstrip (str ''!'') (replicate n 33 @ rest) = rest"
    using assms(1) by (simp add: lstrip_def str_def dropWhile_replicate dropWhile_no_prefix)
  ultimately show ?thesis
    by simp
qed

text \<open>
  C2, as the code has it. For every raw line that is neither blank nor a comment after
  trimming, the parser removes every leading \<open>*\<close> (code point 42) and then every leading
  \<open>!\<close> (code point 33) before it splits on \<open>.\<close>: when the trimmed line is \<open>m\<close> stars, then
  \<open>n\<close> exclamation marks, then a rest that does not start with \<open>!\<close> (nor with \<open>*\<close> when
  there is no \<open>!\<close>), the parts are the non-empty pieces of that rest. The wildcard
  comes first: a \<open>*\<close> after the exclamation marks stays.
\<close>

theorem line_parts_strips_all_markers:
  assumes "strip raw = replicate m 42 @ replicate n 33 @ rest"
    and "strip raw \<noteq> []" and "\<not> startswith (strip raw) (str ''//'')"
    and "\<not> prefix [33] rest" and "n = 0 \<longrightarrow> \<not> prefix [42] rest"
  shows "line_parts raw = Some (filter (\<lambda>p. p \<noteq> []) (py_split 46 rest))"
proof -
  from assms(2,3) have "line_parts raw =
      Some (filter (\<lambda>p. p \<noteq> []) (py_split 46 (lstrip (str ''!'') (lstrip (str ''*'') (strip raw)))))"
    by (simp add: line_parts_def Let_def)
  also have "lstrip (str ''!'') (lstrip (str ''*'') (strip raw)) = rest"
    unfolding assms(1) using assms(4,5) by (rule lstrip_markers)
  finally show ?thesis .
qed

text \<open>The line \<open>**!!*a.b\<close> between blanks: two stars, two exclamation marks, rest \<open>*a.b\<close>.\<close>

theorem line_parts_strips_all_markers_witness:
  "strip (str ''  **!!*a.b '') = replicate 2 42 @ replicate 2 33 @ str ''*a.b'' \<and>
   strip (str ''  **!!*a.b '') \<noteq> [] \<and>
   \<not> startswith (strip (str ''  **!!*a.b '')) (str ''//'') \<and>
   \<not> prefix [33] (str ''*a.b'') \<and>
   line_parts (str ''  **!!*a.b '') = Some [str ''*a'', str ''b'']"
proof -
  have h1: "strip (str ''  **!!*a.b '') = replicate 2 42 @ replicate 2 33 @ str ''*a.b''"
    by (simp add: strip_def str_def is_space_def numeral_2_eq_2)
  have h2: "strip (str ''  **!!*a.b '') \<noteq> []"
    by (simp add: strip_def str_def is_space_def)
  have h3: "\<not> startswith (strip (str ''  **!!*a.b '')) (str ''//'')"
    by (simp add: strip_def str_def is_space_def startswith_def)
  have h4: "\<not> prefix [33] (str ''*a.b'')"
    by (simp add: str_def)
  have h5: "(2::nat) = 0 \<longrightarrow> \<not> prefix [42] (str ''*a.b'')"
    by simp
  have "line_parts (str ''  **!!*a.b '') =
      Some (filter (\<lambda>p. p \<noteq> []) (py_split 46 (str ''*a.b'')))"
    by (rule line_parts_strips_all_markers [OF h1 h2 h3 h4 h5])
  then have "line_parts (str ''  **!!*a.b '') = Some [str ''*a'', str ''b'']"
    by (simp add: str_def)
  with h1 h2 h3 h4 show ?thesis
    by simp
qed

text \<open>
  The line \<open>**a.b\<close>: the code removes both stars, so the first part is \<open>a\<close>; removing at
  most one \<open>*\<close> leaves the part \<open>*a\<close>.
\<close>

theorem line_parts_one_marker_counterexample:
  "line_parts (str ''**a.b'') = Some [str ''a'', str ''b''] \<and>
   line_parts_one_marker (str ''**a.b'') = Some [str ''*a'', str ''b''] \<and>
   line_parts (str ''**a.b'') \<noteq> line_parts_one_marker (str ''**a.b'')"
  by (simp add: line_parts_def line_parts_one_marker_def strip_one_def strip_def lstrip_def
      startswith_def str_def is_space_def Let_def)

end
